theory Spec2Isabelle
  imports Main
begin

section \<open>Syntax trees\<close>

text \<open>
  The program (\<^verbatim>\<open>truth_table.py\<close>) works on the trees of Python's \<^verbatim>\<open>ast\<close> module and
  dispatches on the class name of each node. It is Python 2 code: \<^verbatim>\<open>truth_table\<close>
  concatenates the result of \<^verbatim>\<open>map\<close> with a list, and \<^verbatim>\<open>OrderedSet\<close> derives from
  \<^verbatim>\<open>collections.MutableSet\<close>.

  A node is an object, and the program compares nodes by identity (they are the
  members of the set \<^verbatim>\<open>Name.nodes\<close>), so every node of the model carries the identity
  of its object as a number.
  \<^item> \<open>BoolOp i op values\<close> is an \<^verbatim>\<open>ast.BoolOp\<close>; \<open>op\<close> is the class name of its
    operator object (\<^verbatim>\<open>node.op.__class__.__name__\<close>), \<open>''And''\<close> or \<open>''Or''\<close> in a tree
    that comes from the parser.
  \<^item> \<open>UnaryOp i op operand\<close> is an \<^verbatim>\<open>ast.UnaryOp\<close>; \<open>op\<close> is \<open>''Not''\<close>, \<open>''USub''\<close>,
    \<open>''UAdd''\<close> or \<open>''Invert''\<close> in a tree that comes from the parser.
  \<^item> \<open>Other i k fields\<close> is a node of any other class, with its fields in the order
    of \<^verbatim>\<open>ast.iter_fields\<close>. Of its class the program only asks whether the name is one
    of \<^verbatim>\<open>Str\<close>, \<^verbatim>\<open>Num\<close>, \<^verbatim>\<open>List\<close>, \<^verbatim>\<open>Set\<close>, \<^verbatim>\<open>Dict\<close>; \<open>KName\<close> is \<^verbatim>\<open>ast.Name\<close> and
    \<open>KOther\<close> stands for each remaining class (\<^verbatim>\<open>Call\<close>, \<^verbatim>\<open>BinOp\<close>, \<^verbatim>\<open>Expr\<close>, \<^verbatim>\<open>Module\<close>, ...).
  A field holds a node, a list, or a scalar (a string, a number, \<^verbatim>\<open>None\<close>); a list
  element is a node or a scalar.
\<close>

datatype kind = KStr | KNum | KList | KSet | KDict | KName | KOther

datatype node =
    BoolOp nat string "node list"
  | UnaryOp nat string node
  | Other nat kind "field list"
and field =
    FNode node
  | FList "item list"
  | FScalar string
and item =
    INode node
  | IScalar string

fun ident :: "node \<Rightarrow> nat" where
  "ident (BoolOp i op vs) = i"
| "ident (UnaryOp i op x) = i"
| "ident (Other i k fs) = i"

fun is_BoolOp :: "node \<Rightarrow> bool" where
  "is_BoolOp (BoolOp i op vs) = True"
| "is_BoolOp (UnaryOp i op x) = False"
| "is_BoolOp (Other i k fs) = False"

fun is_UnaryOp :: "node \<Rightarrow> bool" where
  "is_UnaryOp (BoolOp i op vs) = False"
| "is_UnaryOp (UnaryOp i op x) = True"
| "is_UnaryOp (Other i k fs) = False"

text \<open>
  \<^verbatim>\<open>node.__class__.__name__ not in ['Str', 'Num', 'List', 'Set', 'Dict']\<close>, for a node
  that is not a \<^verbatim>\<open>BoolOp\<close>.
\<close>

fun literal_kind :: "kind \<Rightarrow> bool" where
  "literal_kind KStr = True"
| "literal_kind KNum = True"
| "literal_kind KList = True"
| "literal_kind KSet = True"
| "literal_kind KDict = True"
| "literal_kind KName = False"
| "literal_kind KOther = False"

fun not_literal :: "node \<Rightarrow> bool" where
  "not_literal (BoolOp i op vs) = True"
| "not_literal (UnaryOp i op x) = True"
| "not_literal (Other i k fs) = (\<not> literal_kind k)"

section \<open>The candidate filter\<close>

text \<open>
  \<^verbatim>\<open>probably_truthy\<close>: a node that is not a \<^verbatim>\<open>BoolOp\<close> gives \<^verbatim>\<open>False\<close>; a \<^verbatim>\<open>BoolOp\<close>
  gives \<^verbatim>\<open>all(map(test, node.values))\<close>, where the inner function \<^verbatim>\<open>test\<close> calls
  \<^verbatim>\<open>probably_truthy\<close> on a \<^verbatim>\<open>BoolOp\<close> and looks at the class name of anything else.
\<close>

fun probably_truthy :: "node \<Rightarrow> bool" where
  "probably_truthy (BoolOp i op vs) =
     list_all (\<lambda>v. if is_BoolOp v then probably_truthy v else not_literal v) vs"
| "probably_truthy (UnaryOp i op x) = False"
| "probably_truthy (Other i k fs) = False"

section \<open>The expression collector\<close>

text \<open>
  \<^verbatim>\<open>collect_bool_ops\<close> appends the node itself when it is a \<^verbatim>\<open>BoolOp\<close> that passes the
  filter and then walks \<^verbatim>\<open>ast.iter_fields(node)\<close>: a list field element by element
  (nodes only), a node field directly, a scalar field not at all. The fields of a
  \<^verbatim>\<open>BoolOp\<close> are \<^verbatim>\<open>op\<close> and \<^verbatim>\<open>values\<close>, those of a \<^verbatim>\<open>UnaryOp\<close> are \<^verbatim>\<open>op\<close> and
  \<^verbatim>\<open>operand\<close>; the operator object has no fields and is no \<^verbatim>\<open>BoolOp\<close>, so the walk
  into it adds nothing.
\<close>

fun collect_bool_ops :: "node \<Rightarrow> node list"
  and collect_bool_ops_field :: "field \<Rightarrow> node list"
  and collect_bool_ops_item :: "item \<Rightarrow> node list"
where
  "collect_bool_ops (BoolOp i op vs) =
     (if probably_truthy (BoolOp i op vs) then [BoolOp i op vs] else [])
       @ concat (map collect_bool_ops vs)"
| "collect_bool_ops (UnaryOp i op x) = collect_bool_ops x"
| "collect_bool_ops (Other i k fs) = concat (map collect_bool_ops_field fs)"
| "collect_bool_ops_field (FNode n) = collect_bool_ops n"
| "collect_bool_ops_field (FList its) = concat (map collect_bool_ops_item its)"
| "collect_bool_ops_field (FScalar s) = []"
| "collect_bool_ops_item (INode n) = collect_bool_ops n"
| "collect_bool_ops_item (IScalar s) = []"

text \<open>
  Document order, for comparison with the collector: every node of a tree in
  pre-order, depth first, children in field order.
\<close>

fun preorder :: "node \<Rightarrow> node list"
  and preorder_field :: "field \<Rightarrow> node list"
  and preorder_item :: "item \<Rightarrow> node list"
where
  "preorder (BoolOp i op vs) = BoolOp i op vs # concat (map preorder vs)"
| "preorder (UnaryOp i op x) = UnaryOp i op x # preorder x"
| "preorder (Other i k fs) = Other i k fs # concat (map preorder_field fs)"
| "preorder_field (FNode n) = preorder n"
| "preorder_field (FList its) = concat (map preorder_item its)"
| "preorder_field (FScalar s) = []"
| "preorder_item (INode n) = preorder n"
| "preorder_item (IScalar s) = []"

definition candidate :: "node \<Rightarrow> bool" where
  "candidate n = (is_BoolOp n \<and> probably_truthy n)"

section \<open>Operand identities and the ordered set\<close>

text \<open>
  An object of the class \<^verbatim>\<open>Name\<close> holds the label \<^verbatim>\<open>name\<close> and the set \<^verbatim>\<open>nodes\<close> of
  the nodes that produced it, \<^verbatim>\<open>set([node])\<close> at construction. Nodes are members of
  that set by identity, so \<open>nodes\<close> is a set of node identities.

  The class defines \<^verbatim>\<open>__eq__\<close> and no \<^verbatim>\<open>__hash__\<close>. In Python 2 it then keeps
  \<^verbatim>\<open>object.__hash__\<close>, which is computed from the address of the object, so that the
  hash of a \<^verbatim>\<open>Name\<close> tells objects apart, not labels. To follow this, a \<^verbatim>\<open>Name\<close> of the
  model carries the identity \<open>oid\<close> of its object, and constructing one takes the
  next unused identity from a counter that is passed along.
\<close>

record Name =
  oid :: nat
  name :: string
  nodes :: "nat set"

definition new_Name :: "string \<Rightarrow> node \<Rightarrow> nat \<Rightarrow> Name \<times> nat" where
  "new_Name s n h = (\<lparr>oid = h, name = s, nodes = {ident n}\<rparr>, Suc h)"

text \<open>\<^verbatim>\<open>object.__hash__\<close>, inherited by \<^verbatim>\<open>Name\<close>.\<close>

definition hash_Name :: "Name \<Rightarrow> nat" where
  "hash_Name k = oid k"

text \<open>\<^verbatim>\<open>Name.__eq__(self, other)\<close> for \<^verbatim>\<open>other\<close> a \<^verbatim>\<open>Name\<close>, and for \<^verbatim>\<open>other\<close> a node.\<close>

definition Name_eq :: "Name \<Rightarrow> Name \<Rightarrow> bool" where
  "Name_eq k other = (name k = name other)"

definition Name_eq_node :: "Name \<Rightarrow> node \<Rightarrow> bool" where
  "Name_eq_node k other = (ident other \<in> nodes k)"

text \<open>
  \<^verbatim>\<open>Name.__or__\<close>: the node set of \<^verbatim>\<open>self\<close> is extended by that of \<^verbatim>\<open>other\<close> when the
  labels agree (the \<^verbatim>\<open>assert\<close>; \<open>None\<close> is its failure). The model returns the
  changed object. Nothing in the program applies \<^verbatim>\<open>|\<close> to two \<^verbatim>\<open>Name\<close> objects: every
  \<^verbatim>\<open>|\<close> of \<^verbatim>\<open>collect_names\<close> has an \<^verbatim>\<open>OrderedSet\<close> on its left.
\<close>

definition Name_or :: "Name \<Rightarrow> Name \<Rightarrow> Name option" where
  "Name_or k other =
     (if name k = name other then Some (k\<lparr>nodes := nodes k \<union> nodes other\<rparr>) else None)"

text \<open>
  An \<^verbatim>\<open>OrderedSet\<close> is a dictionary \<^verbatim>\<open>map\<close> from key to list cell and a doubly linked
  list of the cells; iteration follows the links from the first cell, and \<^verbatim>\<open>add\<close>
  links a new cell in before the sentinel, that is at the end. The model is the
  list of keys in iteration order; the keys of \<^verbatim>\<open>map\<close> are its elements.

  \<^verbatim>\<open>key in self.map\<close> is a dictionary lookup: a stored key matches when its hash
  equals the hash of \<^verbatim>\<open>key\<close> and it is the same object or \<^verbatim>\<open>==\<close> to it.
\<close>

definition dict_contains :: "Name list \<Rightarrow> Name \<Rightarrow> bool" where
  "dict_contains keys key =
     list_ex (\<lambda>k. hash_Name k = hash_Name key \<and> (oid k = oid key \<or> Name_eq k key)) keys"

definition OrderedSet_add :: "Name \<Rightarrow> Name list \<Rightarrow> Name list" where
  "OrderedSet_add key s = (if \<not> dict_contains s key then s @ [key] else s)"

text \<open>
  \<^verbatim>\<open>OrderedSet(iterable)\<close> starts empty and runs \<^verbatim>\<open>self |= iterable\<close>, which is
  \<^verbatim>\<open>MutableSet.__ior__\<close>: \<^verbatim>\<open>add\<close> for each value. \<^verbatim>\<open>a | b\<close> is \<^verbatim>\<open>Set.__or__\<close>:
  a new \<^verbatim>\<open>OrderedSet\<close> built from the elements of \<^verbatim>\<open>a\<close> followed by those of \<^verbatim>\<open>b\<close>.
\<close>

definition OrderedSet :: "Name list \<Rightarrow> Name list" where
  "OrderedSet iterable = fold OrderedSet_add iterable []"

definition OrderedSet_or :: "Name list \<Rightarrow> Name list \<Rightarrow> Name list" where
  "OrderedSet_or a b = OrderedSet (a @ b)"

section \<open>Labels\<close>

text \<open>
  \<^verbatim>\<open>astunparse.unparse\<close> is a library outside the program; the functions below take
  it as the parameter \<open>unparse\<close>. \<^verbatim>\<open>str.strip()\<close> removes the white space at both
  ends: space, tab, line feed, carriage return, vertical tab, form feed.
\<close>

definition is_space :: "char \<Rightarrow> bool" where
  "is_space c = (c \<in> set [CHR '' '', CHR 0x09, CHR 0x0A, CHR 0x0D, CHR 0x0B, CHR 0x0C])"

definition strip :: "string \<Rightarrow> string" where
  "strip s = rev (dropWhile is_space (rev (dropWhile is_space s)))"

definition label :: "(node \<Rightarrow> string) \<Rightarrow> node \<Rightarrow> string" where
  "label unparse n = strip (unparse n)"

section \<open>The operand extractor\<close>

text \<open>
  \<^verbatim>\<open>collect_names\<close>. The loop over \<^verbatim>\<open>node.values\<close> is \<open>collect_names_values\<close>, with the
  \<^verbatim>\<open>names\<close> collected so far as accumulator. The test on the operand is
  \<^verbatim>\<open>value.__class__.__name__ in ['BoolOp', 'UnaryOp']\<close>.
\<close>

fun collect_names :: "(node \<Rightarrow> string) \<Rightarrow> node \<Rightarrow> nat \<Rightarrow> Name list \<times> nat"
  and collect_names_values ::
    "(node \<Rightarrow> string) \<Rightarrow> node list \<Rightarrow> Name list \<Rightarrow> nat \<Rightarrow> Name list \<times> nat"
where
  "collect_names unparse (BoolOp i op vs) h =
     collect_names_values unparse vs (OrderedSet []) h"
| "collect_names unparse (UnaryOp i op x) h =
     (case collect_names unparse x h of
        (r, h') \<Rightarrow> (OrderedSet_or (OrderedSet []) r, h'))"
| "collect_names unparse (Other i k fs) h =
     (case new_Name (label unparse (Other i k fs)) (Other i k fs) h of
        (nm, h') \<Rightarrow> (OrderedSet_or (OrderedSet []) (OrderedSet [nm]), h'))"
| "collect_names_values unparse [] names h = (names, h)"
| "collect_names_values unparse (v # vs) names h =
     (if is_BoolOp v \<or> is_UnaryOp v
      then (case collect_names unparse v h of
              (r, h') \<Rightarrow> collect_names_values unparse vs (OrderedSet_or names r) h')
      else (case new_Name (label unparse v) v h of
              (nm, h') \<Rightarrow>
                collect_names_values unparse vs (OrderedSet_or names (OrderedSet [nm])) h'))"

section \<open>The evaluator\<close>

datatype error =
    AssertionError
  | NotImplementedError string
  | ValueError
  | IndexError

text \<open>
  \<^verbatim>\<open>list(names).index(value)\<close>: the first position whose element is \<^verbatim>\<open>==\<close> to the
  node, \<^verbatim>\<open>ValueError\<close> (here \<open>None\<close>) when there is none. \<^verbatim>\<open>conditions[idx]\<close> raises
  \<^verbatim>\<open>IndexError\<close> out of range.
\<close>

fun index_of :: "Name list \<Rightarrow> node \<Rightarrow> nat option" where
  "index_of [] n = None"
| "index_of (k # ks) n =
     (if Name_eq_node k n then Some 0 else map_option Suc (index_of ks n))"

definition subscript :: "'a list \<Rightarrow> nat \<Rightarrow> error + 'a" where
  "subscript xs i = (if i < length xs then Inr (xs ! i) else Inl IndexError)"

text \<open>
  \<^verbatim>\<open>evaluate\<close>. The loop over \<^verbatim>\<open>node.values\<close> is \<open>evaluate_values\<close>; it runs to its end
  before the operator is looked at, and an exception raised in the \<^verbatim>\<open>except\<close> branch
  (by the recursive call) leaves the loop.
\<close>

fun evaluate :: "node \<Rightarrow> Name list \<Rightarrow> bool list \<Rightarrow> error + bool"
  and evaluate_values :: "node list \<Rightarrow> Name list \<Rightarrow> bool list \<Rightarrow> error + bool list"
where
  "evaluate (BoolOp i op vs) names conditions =
     (if length names \<noteq> length conditions then Inl AssertionError
      else (case evaluate_values vs names conditions of
              Inl e \<Rightarrow> Inl e
            | Inr result \<Rightarrow>
                if op = ''And'' then Inr (list_all (\<lambda>b. b) result)
                else if op = ''Or'' then Inr (list_ex (\<lambda>b. b) result)
                else Inl (NotImplementedError op)))"
| "evaluate (UnaryOp i op x) names conditions =
     (if length names \<noteq> length conditions then Inl AssertionError
      else if op = ''Not''
      then (case evaluate x names conditions of
              Inl e \<Rightarrow> Inl e
            | Inr b \<Rightarrow> Inr (\<not> b))
      else Inl (NotImplementedError op))"
| "evaluate (Other i k fs) names conditions =
     (if length names \<noteq> length conditions then Inl AssertionError
      else (case index_of names (Other i k fs) of
              None \<Rightarrow> Inl ValueError
            | Some idx \<Rightarrow> subscript conditions idx))"
| "evaluate_values [] names conditions = Inr []"
| "evaluate_values (v # vs) names conditions =
     (case index_of names v of
        Some idx \<Rightarrow>
          (case subscript conditions idx of
             Inl e \<Rightarrow> Inl e
           | Inr b \<Rightarrow>
               (case evaluate_values vs names conditions of
                  Inl e \<Rightarrow> Inl e
                | Inr result \<Rightarrow> Inr (b # result)))
      | None \<Rightarrow>
          (case evaluate v names conditions of
             Inl e \<Rightarrow> Inl e
           | Inr b \<Rightarrow>
               (case evaluate_values vs names conditions of
                  Inl e \<Rightarrow> Inl e
                | Inr result \<Rightarrow> Inr (b # result))))"

section \<open>The table builder\<close>

text \<open>
  \<^verbatim>\<open>itertools.product(pool, repeat=n)\<close>, as the library documents it: starting from
  the one empty tuple, each of the \<open>n\<close> pools extends every tuple so far by each of
  its elements, \<^verbatim>\<open>result = [x+[y] for x in result for y in pool]\<close>.
\<close>

definition product_step :: "'a list \<Rightarrow> 'a list list \<Rightarrow> 'a list list" where
  "product_step pool result = concat (map (\<lambda>x. map (\<lambda>y. x @ [y]) pool) result)"

definition itertools_product :: "'a list \<Rightarrow> nat \<Rightarrow> 'a list list" where
  "itertools_product pool n = fold product_step (replicate n pool) [[]]"

text \<open>A cell of a row is a string (header) or a boolean (data rows).\<close>

datatype cell = S string | B bool

text \<open>
  \<^verbatim>\<open>truth_table\<close>. The loop over \<^verbatim>\<open>conditions\<close> is \<open>truth_table_rows\<close>; an exception
  of \<^verbatim>\<open>evaluate\<close> ends it. \<^verbatim>\<open>str(name)\<close> is the label of the \<^verbatim>\<open>Name\<close>.
\<close>

fun truth_table_rows :: "node \<Rightarrow> Name list \<Rightarrow> bool list list \<Rightarrow> error + cell list list" where
  "truth_table_rows node names [] = Inr []"
| "truth_table_rows node names (condition # conditions) =
     (case evaluate node names condition of
        Inl e \<Rightarrow> Inl e
      | Inr r \<Rightarrow>
          (case truth_table_rows node names conditions of
             Inl e \<Rightarrow> Inl e
           | Inr rows \<Rightarrow> Inr ((map B condition @ [B r]) # rows)))"

definition truth_table :: "(node \<Rightarrow> string) \<Rightarrow> node \<Rightarrow> nat \<Rightarrow> error + cell list list" where
  "truth_table unparse node h =
     (case collect_names unparse node h of
        (names, h') \<Rightarrow>
          (let conditions = itertools_product [False, True] (length names);
               header = map (\<lambda>k. S (name k)) names @ [S (label unparse node)]
           in case truth_table_rows node names conditions of
                Inl e \<Rightarrow> Inl e
              | Inr rows \<Rightarrow> Inr (header # rows)))"

section \<open>The table renderer\<close>

text \<open>
  \<^verbatim>\<open>str(column)\<close> of a cell, and \<^verbatim>\<open>'{:^{}}'.format(value, width)\<close> for a string: a
  value at least as long as the width is left as it is, otherwise the missing
  width is filled with spaces, half of it (rounded down) before the value and
  the rest after it.
\<close>

fun str :: "cell \<Rightarrow> string" where
  "str (S s) = s"
| "str (B b) = (if b then ''True'' else ''False'')"

definition center :: "string \<Rightarrow> nat \<Rightarrow> string" where
  "center value width =
     (if width \<le> length value then value
      else (let total = width - length value; left = total div 2
            in replicate left (CHR '' '') @ value @ replicate (total - left) (CHR '' '')))"

text \<open>
  \<^verbatim>\<open>('{:^{}}' * len(column_sizes)).format(*args)\<close>, where \<^verbatim>\<open>args\<close> are the pairs of
  \<^verbatim>\<open>zip(values, column_sizes)\<close> flattened: the format string asks for one pair per
  column and raises \<^verbatim>\<open>IndexError\<close> when there are fewer.
\<close>

definition format_row :: "string list \<Rightarrow> nat list \<Rightarrow> error + string" where
  "format_row values column_sizes =
     (if length values < length column_sizes then Inl IndexError
      else Inr (concat (map (\<lambda>(value, width). center value width) (zip values column_sizes))))"

text \<open>
  The first loop of \<^verbatim>\<open>simple_table\<close>: \<open>column_sizes_row\<close> is the inner loop over
  \<^verbatim>\<open>enumerate(row)\<close>, at index \<open>i\<close>; \<^verbatim>\<open>column_sizes[i]\<close> raises \<^verbatim>\<open>IndexError\<close> out of
  range.
\<close>

fun column_sizes_row :: "nat list \<Rightarrow> nat \<Rightarrow> cell list \<Rightarrow> error + nat list" where
  "column_sizes_row column_sizes i [] = Inr column_sizes"
| "column_sizes_row column_sizes i (column # row) =
     (if i < length column_sizes
      then column_sizes_row
             (if column_sizes ! i < length (str column)
              then column_sizes[i := length (str column)] else column_sizes)
             (Suc i) row
      else Inl IndexError)"

fun column_sizes_rows :: "nat list \<Rightarrow> cell list list \<Rightarrow> error + nat list" where
  "column_sizes_rows column_sizes [] = Inr column_sizes"
| "column_sizes_rows column_sizes (row # lol) =
     (case column_sizes_row column_sizes 0 row of
        Inl e \<Rightarrow> Inl e
      | Inr column_sizes' \<Rightarrow> column_sizes_rows column_sizes' lol)"

text \<open>
  The second loop, over \<^verbatim>\<open>enumerate(lol)\<close> at index \<open>i\<close>: one line per row, and after
  the line of row 0 the line of dashes. The padding \<open>sep\<close> is a natural number
  (4 when the caller gives none).
\<close>

fun result_lines :: "nat \<Rightarrow> nat list \<Rightarrow> nat \<Rightarrow> cell list list \<Rightarrow> error + string list" where
  "result_lines sep column_sizes i [] = Inr []"
| "result_lines sep column_sizes i (row # lol) =
     (case format_row (map str row) column_sizes of
        Inl e \<Rightarrow> Inl e
      | Inr line \<Rightarrow>
          (case (if i = 0
                 then (case format_row
                              (map (\<lambda>s. replicate (s - sep) (CHR ''-'')) column_sizes)
                              column_sizes of
                         Inl e \<Rightarrow> Inl e
                       | Inr dashes \<Rightarrow> Inr [line, dashes])
                 else Inr [line]) of
             Inl e \<Rightarrow> Inl e
           | Inr lines \<Rightarrow>
               (case result_lines sep column_sizes (Suc i) lol of
                  Inl e \<Rightarrow> Inl e
                | Inr rest \<Rightarrow> Inr (lines @ rest))))"

fun join :: "string \<Rightarrow> string list \<Rightarrow> string" where
  "join d [] = []"
| "join d [x] = x"
| "join d (x # y # ys) = x @ d @ join d (y # ys)"

definition simple_table :: "cell list list \<Rightarrow> nat \<Rightarrow> error + string" where
  "simple_table lol sep =
     (case lol of
        [] \<Rightarrow> Inl IndexError
      | row0 # rest \<Rightarrow>
          (case column_sizes_rows (replicate (length row0) 0) lol of
             Inl e \<Rightarrow> Inl e
           | Inr sizes \<Rightarrow>
               (case result_lines sep (map (\<lambda>s. s + sep) sizes) 0 lol of
                  Inl e \<Rightarrow> Inl e
                | Inr result \<Rightarrow> Inr (join [CHR 0x0A] result))))"

section \<open>Notions used in the statements\<close>

text \<open>
  The atomic operand occurrences of an expression, from left to right: the nodes
  that are neither \<^verbatim>\<open>BoolOp\<close> nor \<^verbatim>\<open>UnaryOp\<close>, reached from the expression through
  operands of \<^verbatim>\<open>BoolOp\<close> and \<^verbatim>\<open>UnaryOp\<close> nodes only.
\<close>

fun atoms :: "node \<Rightarrow> node list" where
  "atoms (BoolOp i op vs) = concat (map atoms vs)"
| "atoms (UnaryOp i op x) = atoms x"
| "atoms (Other i k fs) = [Other i k fs]"

text \<open>
  An expression whose operators the evaluator implements: \<^verbatim>\<open>And\<close> and \<^verbatim>\<open>Or\<close> at
  every \<^verbatim>\<open>BoolOp\<close>, \<^verbatim>\<open>Not\<close> at every \<^verbatim>\<open>UnaryOp\<close>, down to the atomic operands.
\<close>

fun supported :: "node \<Rightarrow> bool" where
  "supported (BoolOp i op vs) = ((op = ''And'' \<or> op = ''Or'') \<and> list_all supported vs)"
| "supported (UnaryOp i op x) = (op = ''Not'' \<and> supported x)"
| "supported (Other i k fs) = True"

text \<open>
  What the extractor returns without the identities of the \<^verbatim>\<open>Name\<close> objects: label
  and node set of each operand, in order.
\<close>

definition operands :: "(node \<Rightarrow> string) \<Rightarrow> node \<Rightarrow> nat \<Rightarrow> (string \<times> nat set) list" where
  "operands unparse node h = map (\<lambda>k. (name k, nodes k)) (fst (collect_names unparse node h))"

text \<open>
  \<open>new_names\<close> constructs one \<^verbatim>\<open>Name\<close> for each node of a list, one after the other.
\<close>

fun new_names :: "(node \<Rightarrow> string) \<Rightarrow> nat \<Rightarrow> node list \<Rightarrow> Name list" where
  "new_names unparse h [] = []"
| "new_names unparse h (n # ns) =
     fst (new_Name (label unparse n) n h) # new_names unparse (snd (new_Name (label unparse n) n h)) ns"

text \<open>
  Modelled from the spec: the unparse service, "a best-effort canonical rendering
  used only for labeling", which is the library \<^verbatim>\<open>astunparse\<close> and not part of the
  program. The theorems hold for every unparse function; \<open>unparse_sample\<close>
  instantiates them and writes the node classes of the instances as the library
  does: a \<^verbatim>\<open>Name\<close> node, whose only scalar field is its identifier, as that
  identifier; a \<^verbatim>\<open>BoolOp\<close> as its operands joined by \<^verbatim>\<open>and\<close> or \<^verbatim>\<open>or\<close>, in
  parentheses; a \<^verbatim>\<open>UnaryOp\<close> as operator, space and operand, in parentheses (the
  operand of a unary minus in parentheses of its own when it is a number); a
  string without quotes or escapes in single quotes; any other scalar as its
  text. The text of an expression ends with a line feed. What the sample does not
  cover is written \<^verbatim>\<open>?\<close>.
\<close>

fun render :: "node \<Rightarrow> string" where
  "render (BoolOp i op vs) =
     ''('' @ join (if op = ''And'' then '' and '' else if op = ''Or'' then '' or '' else '' ? '')
               (map render vs) @ '')''"
| "render (UnaryOp i op x) =
     ''('' @ (if op = ''Not'' then ''not'' else if op = ''USub'' then ''-''
              else if op = ''UAdd'' then ''+'' else if op = ''Invert'' then ''~'' else ''?'')
       @ '' ''
       @ (case x of
            Other j KNum fs \<Rightarrow> if op = ''USub'' then ''('' @ render x @ '')'' else render x
          | _ \<Rightarrow> render x)
       @ '')''"
| "render (Other i k fs) =
     (case fs of
        [FScalar s] \<Rightarrow> if k = KStr then [CHR 0x27] @ s @ [CHR 0x27] else s
      | _ \<Rightarrow> ''?'')"

definition unparse_sample :: "node \<Rightarrow> string" where
  "unparse_sample n = render n @ [CHR 0x0A]"

text \<open>
  The expressions on which the evaluator meets no exception, given the operands
  \<open>names\<close>: it looks every operand of a \<^verbatim>\<open>BoolOp\<close> up and goes into those it does
  not find, so the operators it sees must be implemented and the atomic nodes it
  reaches must be found.
\<close>

fun evaluable :: "Name list \<Rightarrow> node \<Rightarrow> bool" where
  "evaluable names (BoolOp i op vs) =
     ((op = ''And'' \<or> op = ''Or'') \<and>
      list_all (\<lambda>v. index_of names v \<noteq> None \<or> evaluable names v) vs)"
| "evaluable names (UnaryOp i op x) = (op = ''Not'' \<and> evaluable names x)"
| "evaluable names (Other i k fs) = (index_of names (Other i k fs) \<noteq> None)"

text \<open>
  The layout of a table, for comparison with the renderer: the greatest printed
  width in column \<open>j\<close> over all rows, the field width of the column (that maximum
  plus the padding), the line of a row (its cells centred in the field widths of
  their columns, one after the other) and the line of dashes for \<open>m\<close> columns.
\<close>

definition printed_width :: "cell list list \<Rightarrow> nat \<Rightarrow> nat" where
  "printed_width lol j = Max ((\<lambda>row. length (str (row ! j))) ` set lol)"

definition field_width :: "cell list list \<Rightarrow> nat \<Rightarrow> nat \<Rightarrow> nat" where
  "field_width lol sep j = printed_width lol j + sep"

definition table_line :: "cell list list \<Rightarrow> nat \<Rightarrow> cell list \<Rightarrow> string" where
  "table_line lol sep row =
     concat (map (\<lambda>j. center (str (row ! j)) (field_width lol sep j)) [0..<length row])"

definition dashes_line :: "cell list list \<Rightarrow> nat \<Rightarrow> nat \<Rightarrow> string" where
  "dashes_line lol sep m =
     concat (map (\<lambda>j. center (replicate (field_width lol sep j - sep) (CHR ''-''))
                        (field_width lol sep j)) [0..<m])"

section \<open>The candidate filter and the expression collector\<close>

lemma probably_truthy_iff:
  "probably_truthy n \<longleftrightarrow>
     (\<exists>i op vs. n = BoolOp i op vs \<and>
        (\<forall>v\<in>set vs. (is_BoolOp v \<and> probably_truthy v) \<or> (\<not> is_BoolOp v \<and> not_literal v)))"
  by (cases n) (auto simp: list_all_iff)

lemma not_BoolOp_not_truthy: "\<not> is_BoolOp n \<Longrightarrow> \<not> probably_truthy n"
  by (cases n) auto

lemma all_literal_not_truthy:
  assumes "ws \<noteq> []" "\<forall>w\<in>set ws. \<not> is_BoolOp w \<and> \<not> not_literal w"
  shows "\<not> probably_truthy (BoolOp j opj ws)"
  using assms by (cases ws) auto

lemma collect_bool_ops_filter:
  "collect_bool_ops n = filter candidate (preorder n)"
  "collect_bool_ops_field f = filter candidate (preorder_field f)"
  "collect_bool_ops_item it = filter candidate (preorder_item it)"
  by (induction n and f and it
      rule: collect_bool_ops_collect_bool_ops_field_collect_bool_ops_item.induct)
     (auto simp: candidate_def filter_concat cong: map_cong)

text \<open>
  Claim C6. \<^verbatim>\<open>probably_truthy\<close> is true of a node exactly when the node is a \<^verbatim>\<open>BoolOp\<close>
  and each of its direct operands is a \<^verbatim>\<open>BoolOp\<close> that satisfies the predicate
  itself, or is no \<^verbatim>\<open>BoolOp\<close> and not of a literal kind (string, number, list, set
  or dictionary literal). So a node that is no \<^verbatim>\<open>BoolOp\<close> is never a candidate, a
  \<^verbatim>\<open>BoolOp\<close> without operands is one, and a \<^verbatim>\<open>BoolOp\<close> with operands that are all
  literals is not in the result of \<^verbatim>\<open>collect_bool_ops\<close> for any tree.
\<close>

theorem probably_truthy_candidate_filter:
  "(probably_truthy n \<longleftrightarrow>
     (\<exists>i op vs. n = BoolOp i op vs \<and>
        (\<forall>v\<in>set vs. (is_BoolOp v \<and> probably_truthy v) \<or> (\<not> is_BoolOp v \<and> not_literal v))))
   \<and> (\<not> is_BoolOp n \<longrightarrow> \<not> probably_truthy n)
   \<and> probably_truthy (BoolOp i' op' [])
   \<and> (ws \<noteq> [] \<and> (\<forall>w\<in>set ws. \<not> is_BoolOp w \<and> \<not> not_literal w)
        \<longrightarrow> BoolOp j opj ws \<notin> set (collect_bool_ops t))"
proof -
  have "BoolOp j opj ws \<notin> set (collect_bool_ops t)"
    if "ws \<noteq> []" "\<forall>w\<in>set ws. \<not> is_BoolOp w \<and> \<not> not_literal w"
    using all_literal_not_truthy[OF that] by (simp add: collect_bool_ops_filter candidate_def)
  then show ?thesis
    using probably_truthy_iff[of n] not_BoolOp_not_truthy[of n]
    by (intro conjI impI) simp_all
qed

text \<open>
  An instance: \<^verbatim>\<open>a or (b and not "x")\<close> is a candidate, the name \<^verbatim>\<open>a\<close> is not, an
  empty \<^verbatim>\<open>BoolOp\<close> is, and \<^verbatim>\<open>"x" and "y"\<close> inside an expression statement of a module
  is not collected.
\<close>

theorem probably_truthy_candidate_filter_witness:
  "probably_truthy
     (BoolOp 0 ''Or'' [Other 1 KName [FScalar ''a''],
        BoolOp 2 ''And'' [Other 3 KName [FScalar ''b''],
          UnaryOp 4 ''Not'' (Other 5 KStr [FScalar ''x''])]])
   \<and> \<not> probably_truthy (Other 1 KName [FScalar ''a''])
   \<and> probably_truthy (BoolOp 7 ''And'' [])
   \<and> BoolOp 0 ''And'' [Other 1 KStr [FScalar ''x''], Other 2 KStr [FScalar ''y'']]
        \<notin> set (collect_bool_ops (Other 9 KOther [FList [INode (Other 8 KOther
              [FNode (BoolOp 0 ''And''
                 [Other 1 KStr [FScalar ''x''], Other 2 KStr [FScalar ''y'']])])]]))"
  using probably_truthy_candidate_filter
          [of "BoolOp 0 ''Or'' [Other 1 KName [FScalar ''a''],
                 BoolOp 2 ''And'' [Other 3 KName [FScalar ''b''],
                   UnaryOp 4 ''Not'' (Other 5 KStr [FScalar ''x''])]]"
              7 "''And''"
              "[Other 1 KStr [FScalar ''x''], Other 2 KStr [FScalar ''y'']]" 0 "''And''"
              "Other 9 KOther [FList [INode (Other 8 KOther
                 [FNode (BoolOp 0 ''And''
                    [Other 1 KStr [FScalar ''x''], Other 2 KStr [FScalar ''y'']])])]]"]
        probably_truthy_candidate_filter [of "Other 1 KName [FScalar ''a'']"]
  by simp

text \<open>
  Claim C7. For every tree, \<^verbatim>\<open>collect_bool_ops\<close> returns exactly the nodes of the tree
  that are \<^verbatim>\<open>BoolOp\<close> nodes passing the filter, in pre-order (a node before its
  children, children from left to right); a candidate inside a candidate is in
  the list like any other, after the one that contains it.
\<close>

theorem collect_bool_ops_preorder_candidates:
  "collect_bool_ops t = filter candidate (preorder t)"
  by (rule collect_bool_ops_filter(1))

text \<open>
  An instance: a module with the statements \<^verbatim>\<open>a and (b or c)\<close> and \<^verbatim>\<open>d or e\<close>. The
  outer expression of the first statement comes first, then the one nested in it,
  then the expression of the second statement.
\<close>

theorem collect_bool_ops_preorder_candidates_witness:
  "collect_bool_ops
     (Other 20 KOther [FList
        [INode (Other 21 KOther [FNode
           (BoolOp 0 ''And'' [Other 1 KName [FScalar ''a''],
              BoolOp 2 ''Or'' [Other 3 KName [FScalar ''b''], Other 4 KName [FScalar ''c'']]])]),
         INode (Other 22 KOther [FNode
           (BoolOp 5 ''Or'' [Other 6 KName [FScalar ''d''], Other 7 KName [FScalar ''e'']])])]])
   = [BoolOp 0 ''And'' [Other 1 KName [FScalar ''a''],
        BoolOp 2 ''Or'' [Other 3 KName [FScalar ''b''], Other 4 KName [FScalar ''c'']]],
      BoolOp 2 ''Or'' [Other 3 KName [FScalar ''b''], Other 4 KName [FScalar ''c'']],
      BoolOp 5 ''Or'' [Other 6 KName [FScalar ''d''], Other 7 KName [FScalar ''e'']]]"
  using collect_bool_ops_preorder_candidates
          [of "Other 20 KOther [FList
        [INode (Other 21 KOther [FNode
           (BoolOp 0 ''And'' [Other 1 KName [FScalar ''a''],
              BoolOp 2 ''Or'' [Other 3 KName [FScalar ''b''], Other 4 KName [FScalar ''c'']]])]),
         INode (Other 22 KOther [FNode
           (BoolOp 5 ''Or'' [Other 6 KName [FScalar ''d''], Other 7 KName [FScalar ''e'']])])]]"]
  by (simp add: candidate_def)

section \<open>The ordered set and the operand extractor\<close>

lemma OrderedSet_empty: "OrderedSet [] = []"
  by (simp add: OrderedSet_def)

lemma dict_contains_oid: "dict_contains keys key \<longleftrightarrow> (\<exists>k\<in>set keys. oid k = oid key)"
  by (auto simp: dict_contains_def hash_Name_def list_ex_iff)

lemma fold_add_distinct:
  "distinct (map oid (acc @ xs)) \<Longrightarrow> fold OrderedSet_add xs acc = acc @ xs"
proof (induction xs arbitrary: acc)
  case Nil
  then show ?case by simp
next
  case (Cons x xs)
  have "oid x \<notin> oid ` set acc"
    using Cons.prems by auto
  then have "\<not> dict_contains acc x"
    unfolding dict_contains_oid by (metis imageI)
  then have "fold OrderedSet_add (x # xs) acc = fold OrderedSet_add xs (acc @ [x])"
    by (simp add: OrderedSet_add_def)
  also have "\<dots> = (acc @ [x]) @ xs"
    using Cons.prems by (intro Cons.IH) simp
  finally show ?case by simp
qed

lemma OrderedSet_distinct: "distinct (map oid xs) \<Longrightarrow> OrderedSet xs = xs"
  using fold_add_distinct[of "[]" xs] by (simp add: OrderedSet_def)

lemma oid_new_names: "map oid (new_names u h ns) = [h..<h + length ns]"
  by (induction ns arbitrary: h) (auto simp: new_Name_def upt_rec)

lemma new_names_append:
  "new_names u h (xs @ ys) = new_names u h xs @ new_names u (h + length xs) ys"
  by (induction xs arbitrary: h) (auto simp: new_Name_def)

lemma length_new_names: "length (new_names u h ns) = length ns"
  by (induction ns arbitrary: h) auto

lemma OrderedSet_or_new_names:
  "OrderedSet_or (new_names u h xs) (new_names u (h + length xs) ys) = new_names u h (xs @ ys)"
proof -
  have "distinct (map oid (new_names u h (xs @ ys)))"
    by (simp only: oid_new_names distinct_upt)
  then show ?thesis
    by (simp add: OrderedSet_or_def OrderedSet_distinct new_names_append)
qed

lemma collect_names_new_names:
  "collect_names u e h = (new_names u h (atoms e), h + length (atoms e))"
  "names = new_names u h0 xs \<Longrightarrow> h = h0 + length xs \<Longrightarrow>
     collect_names_values u vs names h =
       (new_names u h0 (xs @ concat (map atoms vs)), h + length (concat (map atoms vs)))"
proof (induction u e h and u vs names h arbitrary: and h0 xs
       rule: collect_names_collect_names_values.induct)
  case (1 unparse i op vs h)
  show ?case
    using "1.IH"[of h "[]"] by (simp add: OrderedSet_empty)
next
  case (2 unparse i op x h)
  show ?case
    using "2.IH" OrderedSet_or_new_names[of unparse h "[]" "atoms x"]
    by (simp add: OrderedSet_empty)
next
  case (3 unparse i k fs h)
  show ?case
    using OrderedSet_or_new_names[of unparse h "[]" "[Other i k fs]"]
    by (simp add: OrderedSet_empty OrderedSet_distinct new_Name_def)
next
  case (4 unparse names h)
  then show ?case by simp
next
  case (5 unparse v vs names h)
  show ?case
  proof (cases "is_BoolOp v \<or> is_UnaryOp v")
    case True
    have r: "collect_names unparse v h = (new_names unparse h (atoms v), h + length (atoms v))"
      using "5.IH"(1)[OF True] .
    have "OrderedSet_or names (new_names unparse h (atoms v)) = new_names unparse h0 (xs @ atoms v)"
      using "5.prems" OrderedSet_or_new_names[of unparse h0 xs "atoms v"] by simp
    then show ?thesis
      using True r "5.IH"(2)[OF True r[symmetric], of h0 "xs @ atoms v"] "5.prems"
      by (simp add: add.assoc)
  next
    case False
    then obtain i k fs where v: "v = Other i k fs" by (cases v) auto
    have n: "new_Name (label unparse v) v h = (fst (new_Name (label unparse v) v h), Suc h)"
      by (simp add: new_Name_def)
    have "OrderedSet [fst (new_Name (label unparse v) v h)] = new_names unparse h [v]"
      by (simp add: OrderedSet_distinct)
    then have "OrderedSet_or names (OrderedSet [fst (new_Name (label unparse v) v h)])
                = new_names unparse h0 (xs @ [v])"
      using "5.prems" OrderedSet_or_new_names[of unparse h0 xs "[v]"] by simp
    then show ?thesis
      using False n "5.IH"(3)[OF False n[symmetric], of h0 "xs @ [v]"] "5.prems" v
      by (simp add: add.assoc new_Name_def)
  qed
qed

section \<open>The evaluator\<close>

lemma index_of_less: "index_of names n = Some idx \<Longrightarrow> idx < length names"
  by (induction names arbitrary: idx) (auto split: if_splits)

lemma subscript_index_of:
  "length names = length conditions \<Longrightarrow> index_of names n = Some idx \<Longrightarrow>
     subscript conditions idx = Inr (conditions ! idx)"
  using index_of_less[of names n idx] by (simp add: subscript_def)

lemma evaluate_Inr_iff:
  "length names = length conditions \<Longrightarrow>
     (\<exists>b. evaluate e names conditions = Inr b) = evaluable names e"
  "length names = length conditions \<Longrightarrow>
     (\<exists>bs. evaluate_values vs names conditions = Inr bs) =
       list_all (\<lambda>v. index_of names v \<noteq> None \<or> evaluable names v) vs"
proof (induction e names conditions and vs names conditions
       rule: evaluate_evaluate_values.induct)
  case (1 i op vs names conditions)
  then show ?case by (auto split: sum.splits)
next
  case (2 i op x names conditions)
  then show ?case by (auto split: sum.splits)
next
  case (3 i k fs names conditions)
  then show ?case by (auto split: option.splits simp: subscript_index_of)
next
  case (4 names conditions)
  then show ?case by simp
next
  case (5 v vs names conditions)
  show ?case
  proof (cases "index_of names v")
    case None
    then show ?thesis
      using 5 by (auto split: sum.splits)
  next
    case (Some idx)
    have s: "subscript conditions idx = Inr (conditions ! idx)"
      using subscript_index_of[OF "5.prems"(1) Some] .
    have IH: "(\<exists>bs. evaluate_values vs names conditions = Inr bs) =
       list_all (\<lambda>v. index_of names v \<noteq> None \<or> evaluable names v) vs"
      using "5.IH"(3)[OF Some s "5.prems"] .
    show ?thesis
      using Some s IH by (auto split: sum.splits)
  qed
qed

lemma evaluate_error_kind:
  "length names = length conditions \<Longrightarrow> evaluate e names conditions = Inl err \<Longrightarrow>
     err = ValueError \<or> (\<exists>op. err = NotImplementedError op)"
  "length names = length conditions \<Longrightarrow> evaluate_values vs names conditions = Inl err \<Longrightarrow>
     err = ValueError \<or> (\<exists>op. err = NotImplementedError op)"
proof (induction e names conditions and vs names conditions
       rule: evaluate_evaluate_values.induct)
  case (1 i op vs names conditions)
  then show ?case by (auto split: sum.splits if_splits)
next
  case (2 i op x names conditions)
  then show ?case by (auto split: sum.splits if_splits)
next
  case (3 i k fs names conditions)
  then show ?case by (auto split: option.splits simp: subscript_index_of)
next
  case (4 names conditions)
  then show ?case by simp
next
  case (5 v vs names conditions)
  show ?case
  proof (cases "index_of names v")
    case None
    then show ?thesis
      using 5 by (auto split: sum.splits)
  next
    case (Some idx)
    have s: "subscript conditions idx = Inr (conditions ! idx)"
      using subscript_index_of[OF "5.prems"(1) Some] .
    show ?thesis
      using 5 Some s by (auto split: sum.splits)
  qed
qed

text \<open>
  Claim C8. With as many operands as conditions, \<^verbatim>\<open>evaluate\<close> raises
  \<^verbatim>\<open>NotImplementedError\<close> at a \<^verbatim>\<open>UnaryOp\<close> whose operator is not \<^verbatim>\<open>Not\<close>, and at a
  \<^verbatim>\<open>BoolOp\<close> whose operator is neither \<^verbatim>\<open>And\<close> nor \<^verbatim>\<open>Or\<close> once the loop over its
  operands has finished (an exception raised inside the loop is passed on as it
  is); it raises \<^verbatim>\<open>ValueError\<close>, the failed lookup, at an atomic node that no operand
  matches. It returns a boolean only when every operator it meets is implemented
  and every atomic node it reaches is matched, and any exception it raises is one
  of these two: no result is made up.
\<close>

theorem evaluate_raises_never_defaults:
  assumes "length names = length conditions"
  shows "(op \<noteq> ''Not'' \<longrightarrow>
            evaluate (UnaryOp i op x) names conditions = Inl (NotImplementedError op))
   \<and> (op \<noteq> ''And'' \<and> op \<noteq> ''Or'' \<longrightarrow>
        (\<forall>r. evaluate_values vs names conditions = Inr r \<longrightarrow>
               evaluate (BoolOp i op vs) names conditions = Inl (NotImplementedError op)) \<and>
        (\<forall>err. evaluate_values vs names conditions = Inl err \<longrightarrow>
               evaluate (BoolOp i op vs) names conditions = Inl err))
   \<and> (index_of names (Other i k fs) = None \<longrightarrow>
        evaluate (Other i k fs) names conditions = Inl ValueError)
   \<and> ((\<exists>b. evaluate e names conditions = Inr b) \<longleftrightarrow> evaluable names e)
   \<and> (\<forall>err. evaluate e names conditions = Inl err \<longrightarrow>
          err = ValueError \<or> (\<exists>op'. err = NotImplementedError op'))"
proof (intro conjI)
  show "(\<exists>b. evaluate e names conditions = Inr b) \<longleftrightarrow> evaluable names e"
    using evaluate_Inr_iff(1)[OF assms] .
  show "\<forall>err. evaluate e names conditions = Inl err \<longrightarrow>
          err = ValueError \<or> (\<exists>op'. err = NotImplementedError op')"
    using evaluate_error_kind(1)[OF assms] by blast
qed (use assms in simp_all)

text \<open>
  Instances, with the one operand \<^verbatim>\<open>a\<close>: \<^verbatim>\<open>-a\<close>, an expression with an operator
  that is no boolean operator, the unregistered name \<^verbatim>\<open>c\<close>, and \<^verbatim>\<open>a and c\<close>.
\<close>

theorem evaluate_raises_never_defaults_witness:
  "evaluate (UnaryOp 2 ''USub'' (Other 1 KName [FScalar ''a'']))
       [\<lparr>oid = 0, name = ''a'', nodes = {1}\<rparr>] [True] = Inl (NotImplementedError ''USub'')
   \<and> evaluate (BoolOp 3 ''BitXor'' [Other 1 KName [FScalar ''a'']])
       [\<lparr>oid = 0, name = ''a'', nodes = {1}\<rparr>] [True] = Inl (NotImplementedError ''BitXor'')
   \<and> evaluate (Other 4 KName [FScalar ''c''])
       [\<lparr>oid = 0, name = ''a'', nodes = {1}\<rparr>] [True] = Inl ValueError
   \<and> \<not> evaluable [\<lparr>oid = 0, name = ''a'', nodes = {1}\<rparr>]
        (BoolOp 5 ''And'' [Other 1 KName [FScalar ''a''], Other 4 KName [FScalar ''c'']])
   \<and> evaluate (BoolOp 5 ''And'' [Other 1 KName [FScalar ''a''], Other 4 KName [FScalar ''c'']])
       [\<lparr>oid = 0, name = ''a'', nodes = {1}\<rparr>] [True] = Inl ValueError"
proof -
  let ?names = "[\<lparr>oid = 0, name = ''a'', nodes = {1}\<rparr>]"
  have len: "length ?names = length [True]" by simp
  have vs: "evaluate_values [Other 1 KName [FScalar ''a'']] ?names [True] = Inr [True]"
    by (simp add: Name_eq_node_def subscript_def)
  have none: "index_of ?names (Other 4 KName [FScalar ''c'']) = None"
    by (simp add: Name_eq_node_def)
  show ?thesis
    using evaluate_raises_never_defaults[OF len, of "''USub''" 2 "Other 1 KName [FScalar ''a'']"
            "[Other 1 KName [FScalar ''a'']]" ]
          evaluate_raises_never_defaults[OF len, of "''BitXor''" 3 "Other 1 KName [FScalar ''a'']"
            "[Other 1 KName [FScalar ''a'']]" "KName" "[FScalar ''c'']"]
          evaluate_raises_never_defaults[OF len, of "''BitXor''" 4 "Other 1 KName [FScalar ''a'']"
            "[Other 1 KName [FScalar ''a'']]" "KName" "[FScalar ''c'']"
            "BoolOp 5 ''And'' [Other 1 KName [FScalar ''a''], Other 4 KName [FScalar ''c'']]"]
          vs none
    by (simp add: Name_eq_node_def subscript_def)
qed

section \<open>The enumeration of the assignments\<close>

lemma itertools_product_Suc:
  "itertools_product pool (Suc n) = product_step pool (itertools_product pool n)"
proof -
  have "replicate (Suc n) pool = replicate n pool @ [pool]"
    by (simp add: replicate_append_same)
  then show ?thesis
    unfolding itertools_product_def by (simp only: fold_append) simp
qed

lemma product_step_bools:
  "product_step [False, True] xs = concat (map (\<lambda>x. [x @ [False], x @ [True]]) xs)"
  by (simp add: product_step_def)

lemma nth_concat_pairs:
  "k < 2 * length xs \<Longrightarrow>
     concat (map (\<lambda>x. [f x, g x]) xs) ! k = (if even k then f (xs ! (k div 2)) else g (xs ! (k div 2)))"
proof (induction xs arbitrary: k)
  case Nil
  then show ?case by simp
next
  case (Cons x xs)
  show ?case
  proof (cases k)
    case 0
    then show ?thesis by simp
  next
    case (Suc k1)
    show ?thesis
    proof (cases k1)
      case 0
      with Suc show ?thesis by simp
    next
      case (Suc k2)
      with \<open>k = Suc k1\<close> Cons.prems have "k2 < 2 * length xs" by simp
      from Cons.IH[OF this] Suc \<open>k = Suc k1\<close> show ?thesis by simp
    qed
  qed
qed

lemma length_concat_pairs: "length (concat (map (\<lambda>x. [f x, g x]) xs)) = 2 * length xs"
  by (induction xs) auto

lemma length_itertools_product: "length (itertools_product [False, True] n) = 2 ^ n"
  by (induction n) (simp_all add: itertools_product_Suc product_step_bools length_concat_pairs,
                    simp add: itertools_product_def)

lemma itertools_product_nth:
  "k < 2 ^ n \<Longrightarrow>
     length (itertools_product [False, True] n ! k) = n \<and>
     (\<forall>j<n. itertools_product [False, True] n ! k ! j = bit k (n - 1 - j))"
proof (induction n arbitrary: k)
  case 0
  then show ?case by (simp add: itertools_product_def)
next
  case (Suc n)
  let ?P = "itertools_product [False, True] n"
  have k2: "k div 2 < 2 ^ n" using Suc.prems by auto
  have kl: "k < 2 * length ?P" using Suc.prems by (simp add: length_itertools_product)
  have row: "itertools_product [False, True] (Suc n) ! k = ?P ! (k div 2) @ [odd k]"
    unfolding itertools_product_Suc product_step_bools nth_concat_pairs[OF kl] by simp
  have len: "length (?P ! (k div 2)) = n" using Suc.IH[OF k2] by simp
  have "(?P ! (k div 2) @ [odd k]) ! j = bit k (Suc n - 1 - j)" if "j < Suc n" for j
  proof (cases "j < n")
    case True
    then have "(?P ! (k div 2) @ [odd k]) ! j = bit (k div 2) (n - 1 - j)"
      using Suc.IH[OF k2] len by (simp add: nth_append)
    also have "\<dots> = bit k (Suc (n - 1 - j))" by (simp add: bit_Suc)
    also have "Suc (n - 1 - j) = Suc n - 1 - j" using True by simp
    finally show ?thesis .
  next
    case False
    with that have "j = n" by simp
    then show ?thesis using len by (simp add: nth_append bit_0)
  qed
  then show ?case using row len by simp
qed

lemma set_itertools_product_length:
  "c \<in> set (itertools_product [False, True] n) \<Longrightarrow> length c = n"
  using itertools_product_nth[of _ n] by (auto simp: in_set_conv_nth length_itertools_product)

section \<open>The table builder\<close>

lemma atoms_of_values: "v \<in> set vs \<Longrightarrow> set (atoms v) \<subseteq> set (atoms (BoolOp i op vs))"
  by auto

lemma supported_evaluable:
  "supported e \<Longrightarrow> \<forall>a\<in>set (atoms e). index_of names a \<noteq> None \<Longrightarrow> evaluable names e"
proof (induction e rule: supported.induct)
  case (1 i op vs)
  have "index_of names v \<noteq> None \<or> evaluable names v" if "v \<in> set vs" for v
  proof -
    have "supported v" using "1.prems"(1) that by (simp add: list_all_iff)
    moreover have "\<forall>a\<in>set (atoms v). index_of names a \<noteq> None"
      using "1.prems"(2) that by auto
    ultimately show ?thesis using "1.IH"[OF that] by simp
  qed
  then show ?case using "1.prems"(1) by (simp add: list_all_iff)
next
  case (2 i op x)
  then show ?case by simp
next
  case (3 i k fs)
  then show ?case by simp
qed

lemma index_of_new_names:
  "n \<in> set ns \<Longrightarrow> index_of (new_names u h ns) n \<noteq> None"
  by (induction ns arbitrary: h) (auto simp: new_Name_def Name_eq_node_def)

lemma truth_table_rows_Inr:
  "truth_table_rows e names cs = Inr rows \<Longrightarrow>
     length rows = length cs \<and>
     (\<forall>k<length cs. \<exists>r. evaluate e names (cs ! k) = Inr r \<and> rows ! k = map B (cs ! k) @ [B r])"
proof (induction cs arbitrary: rows)
  case Nil
  then show ?case by simp
next
  case (Cons c cs)
  from Cons.prems obtain r rs where
    r: "evaluate e names c = Inr r" and rs: "truth_table_rows e names cs = Inr rs"
    and rows: "rows = (map B c @ [B r]) # rs"
    by (auto split: sum.splits)
  have IH: "length rs = length cs \<and>
     (\<forall>k<length cs. \<exists>r. evaluate e names (cs ! k) = Inr r \<and> rs ! k = map B (cs ! k) @ [B r])"
    using Cons.IH[OF rs] .
  show ?case
  proof (intro conjI allI impI)
    show "length rows = length (c # cs)" using IH rows by simp
  next
    fix k assume "k < length (c # cs)"
    then show "\<exists>r. evaluate e names ((c # cs) ! k) = Inr r \<and> rows ! k = map B ((c # cs) ! k) @ [B r]"
      using IH r rows by (cases k) auto
  qed
qed

lemma truth_table_rows_total:
  "\<forall>c\<in>set cs. \<exists>r. evaluate e names c = Inr r \<Longrightarrow> \<exists>rows. truth_table_rows e names cs = Inr rows"
  by (induction cs) (auto split: sum.splits)

lemma truth_table_Inr:
  assumes "truth_table u e h = Inr rows"
  shows "\<exists>rs. rows = (map (\<lambda>k. S (name k)) (new_names u h (atoms e)) @ [S (label u e)]) # rs \<and>
           truth_table_rows e (new_names u h (atoms e))
             (itertools_product [False, True] (length (atoms e))) = Inr rs"
  using assms
  by (auto simp: truth_table_def collect_names_new_names length_new_names Let_def split: sum.splits)

lemma name_new_names: "map name (new_names u h ns) = map (label u) ns"
  by (induction ns arbitrary: h) (auto simp: new_Name_def)

lemma operands_atoms: "operands u e h = map (\<lambda>n. (label u n, {ident n})) (atoms e)"
proof -
  have "map (\<lambda>k. (name k, nodes k)) (new_names u h ns) = map (\<lambda>n. (label u n, {ident n})) ns" for ns
    by (induction ns arbitrary: h) (auto simp: new_Name_def)
  then show ?thesis by (simp add: operands_def collect_names_new_names)
qed

lemma truth_table_supported_returns:
  assumes "supported e"
  shows "\<exists>rows. truth_table u e h = Inr rows"
proof -
  let ?names = "new_names u h (atoms e)"
  let ?cs = "itertools_product [False, True] (length (atoms e))"
  have ev: "evaluable ?names e"
    using supported_evaluable[OF assms] index_of_new_names by blast
  have "\<exists>r. evaluate e ?names c = Inr r" if "c \<in> set ?cs" for c
    using evaluate_Inr_iff(1)[of ?names c e] ev set_itertools_product_length[OF that]
    by (simp add: length_new_names)
  then obtain rs where "truth_table_rows e ?names ?cs = Inr rs"
    using truth_table_rows_total[of ?cs e ?names] by blast
  then show ?thesis
    by (simp add: truth_table_def collect_names_new_names length_new_names)
qed

text \<open>
  Claim C3, as amended. For every expression \<open>e\<close> built with \<^verbatim>\<open>And\<close>, \<^verbatim>\<open>Or\<close> and
  \<^verbatim>\<open>Not\<close> over atomic operands whose labels are pairwise different, \<open>n\<close> of them,
  \<^verbatim>\<open>truth_table\<close> returns exactly \<open>2 ^ n + 1\<close> rows, every row has \<open>n + 1\<close> entries,
  and the first row is the header: the labels of the operands and then the label
  of \<open>e\<close>.
\<close>

theorem truth_table_row_count:
  assumes "supported e"
    and "distinct (map (label u) (atoms e))"
    and "n = card (set (map (label u) (atoms e)))"
  shows "\<exists>rows. truth_table u e h = Inr rows \<and> length rows = 2 ^ n + 1 \<and>
           (\<forall>r\<in>set rows. length r = n + 1) \<and>
           hd rows = map S (map (label u) (atoms e)) @ [S (label u e)]"
proof -
  let ?names = "new_names u h (atoms e)"
  let ?cs = "itertools_product [False, True] (length (atoms e))"
  have n: "n = length (atoms e)"
    using assms(2,3) distinct_card[of "map (label u) (atoms e)"] by simp
  have ev: "evaluable ?names e"
    using supported_evaluable[OF assms(1)] index_of_new_names by blast
  have "\<exists>r. evaluate e ?names c = Inr r" if "c \<in> set ?cs" for c
    using evaluate_Inr_iff(1)[of ?names c e] ev set_itertools_product_length[OF that]
    by (simp add: length_new_names)
  then obtain rs where rs: "truth_table_rows e ?names ?cs = Inr rs"
    using truth_table_rows_total[of ?cs e ?names] by blast
  let ?header = "map (\<lambda>k. S (name k)) ?names @ [S (label u e)]"
  have tt: "truth_table u e h = Inr (?header # rs)"
    using rs by (simp add: truth_table_def collect_names_new_names length_new_names)
  have hdr: "?header = map S (map (label u) (atoms e)) @ [S (label u e)]"
  proof -
    have "map (\<lambda>k. S (name k)) ?names = map S (map name ?names)"
      by (simp add: comp_def)
    then show ?thesis by (simp only: name_new_names)
  qed
  note R = truth_table_rows_Inr[OF rs]
  have lrs: "length rs = 2 ^ n" using R n by (simp add: length_itertools_product)
  have "length r = n + 1" if "r \<in> set rs" for r
  proof -
    from that obtain k where k: "k < length rs" "r = rs ! k" by (auto simp: in_set_conv_nth)
    then have kc: "k < length ?cs" using R by simp
    then obtain b where "rs ! k = map B (?cs ! k) @ [B b]" using R by blast
    moreover have "length (?cs ! k) = n"
      using set_itertools_product_length[of "?cs ! k" "length (atoms e)"] kc n by simp
    ultimately show ?thesis using k by simp
  qed
  moreover have "length ?header = n + 1" using n by (simp add: length_new_names)
  ultimately have "\<forall>r\<in>set (?header # rs). length r = n + 1" by auto
  then show ?thesis using tt lrs hdr by simp
qed

text \<open>
  An instance: \<^verbatim>\<open>a or not (b and c)\<close> has three operands and nine rows of four
  entries.
\<close>

theorem truth_table_row_count_witness:
  "\<exists>rows. truth_table unparse_sample
      (BoolOp 0 ''Or'' [Other 1 KName [FScalar ''a''],
         UnaryOp 2 ''Not'' (BoolOp 3 ''And''
           [Other 4 KName [FScalar ''b''], Other 5 KName [FScalar ''c'']])]) 0 = Inr rows
     \<and> length rows = 9 \<and> list_all (\<lambda>r. length r = 4) rows
     \<and> hd rows = [S ''a'', S ''b'', S ''c'', S ''(a or (not (b and c)))'']"
proof -
  let ?e = "BoolOp 0 ''Or'' [Other 1 KName [FScalar ''a''],
         UnaryOp 2 ''Not'' (BoolOp 3 ''And''
           [Other 4 KName [FScalar ''b''], Other 5 KName [FScalar ''c'']])]"
  have lab: "map (label unparse_sample) (atoms ?e) = [''a'', ''b'', ''c'']"
    "label unparse_sample ?e = ''(a or (not (b and c)))''"
    by (simp_all add: label_def unparse_sample_def strip_def is_space_def)
  have s: "supported ?e" by simp
  have d: "distinct (map (label unparse_sample) (atoms ?e))"
    unfolding lab by simp
  have n: "(3::nat) = card (set (map (label unparse_sample) (atoms ?e)))"
    unfolding lab by simp
  show ?thesis
    using truth_table_row_count[OF s d n, of 0] unfolding lab
    by (simp add: list_all_iff)
qed

text \<open>
  The claim as first stated, for every boolean expression, fails at \<^verbatim>\<open>a or ~b\<close>:
  \<^verbatim>\<open>truth_table\<close> returns no rows, it raises \<^verbatim>\<open>NotImplementedError\<close>.
\<close>

theorem truth_table_row_count_counterexample:
  "truth_table unparse_sample
     (BoolOp 0 ''Or'' [Other 1 KName [FScalar ''a''],
        UnaryOp 2 ''Invert'' (Other 3 KName [FScalar ''b''])]) 0
   = Inl (NotImplementedError ''Invert'')"
  by code_simp

text \<open>
  Claim C4. For \<open>n\<close> operands the table builder enumerates \<open>2 ^ n\<close> assignments of
  length \<open>n\<close>, and assignment \<open>k\<close> (counted from 0) holds at operand position \<open>j\<close> the
  bit of \<open>k\<close> with weight \<open>2 ^ (n - 1 - j)\<close>, \<^verbatim>\<open>False\<close> for 0 and \<^verbatim>\<open>True\<close> for 1: binary
  counting order with the leftmost operand as the most significant bit. Whenever
  \<^verbatim>\<open>truth_table\<close> returns, its data rows after the header are in this order; and
  for every expression whose operators the evaluator implements it does return,
  with the rows in this order.
\<close>

theorem truth_table_binary_counting_order:
  "length (itertools_product [False, True] n) = 2 ^ n
   \<and> (\<forall>k<2 ^ n. length (itertools_product [False, True] n ! k) = n \<and>
         (\<forall>j<n. itertools_product [False, True] n ! k ! j = bit k (n - 1 - j)))
   \<and> (truth_table u e h = Inr rows \<and> n = length (operands u e h) \<longrightarrow>
         length rows = 2 ^ n + 1 \<and>
         (\<forall>k<2 ^ n. \<forall>j<n. rows ! Suc k ! j = B (bit k (n - 1 - j))))
   \<and> (supported e \<and> n = length (operands u e h) \<longrightarrow>
         (\<exists>rs. truth_table u e h = Inr rs \<and> length rs = 2 ^ n + 1 \<and>
               (\<forall>k<2 ^ n. \<forall>j<n. rs ! Suc k ! j = B (bit k (n - 1 - j)))))"
proof -
  have order: "length rs = 2 ^ n + 1 \<and>
         (\<forall>k<2 ^ n. \<forall>j<n. rs ! Suc k ! j = B (bit k (n - 1 - j)))"
    if t: "truth_table u e h = Inr rs" and n': "n = length (operands u e h)" for rs
  proof -
    let ?names = "new_names u h (atoms e)"
    let ?cs = "itertools_product [False, True] n"
    have n: "n = length (atoms e)" using n' by (simp add: operands_atoms)
    from truth_table_Inr[OF t] obtain rs' where
      rows: "rs = (map (\<lambda>k. S (name k)) ?names @ [S (label u e)]) # rs'"
      and rs': "truth_table_rows e ?names ?cs = Inr rs'"
      unfolding n by blast
    note R = truth_table_rows_Inr[OF rs']
    have "rs ! Suc k ! j = B (bit k (n - 1 - j))" if "k < 2 ^ n" "j < n" for k j
    proof -
      have kc: "k < length ?cs" using that by (simp add: length_itertools_product)
      then obtain b where b: "rs' ! k = map B (?cs ! k) @ [B b]" using R by blast
      have "length (?cs ! k) = n" "?cs ! k ! j = bit k (n - 1 - j)"
        using itertools_product_nth[OF that(1)] that(2) by simp_all
      then show ?thesis using rows b that(2) by (simp add: nth_append)
    qed
    moreover have "length rs = 2 ^ n + 1"
      using rows R by (simp add: length_itertools_product)
    ultimately show ?thesis by blast
  qed
  show ?thesis
  proof (intro conjI)
    show "length (itertools_product [False, True] n) = 2 ^ n"
      by (rule length_itertools_product)
    show "\<forall>k<2 ^ n. length (itertools_product [False, True] n ! k) = n \<and>
           (\<forall>j<n. itertools_product [False, True] n ! k ! j = bit k (n - 1 - j))"
      using itertools_product_nth by blast
    show "truth_table u e h = Inr rows \<and> n = length (operands u e h) \<longrightarrow>
           length rows = 2 ^ n + 1 \<and>
           (\<forall>k<2 ^ n. \<forall>j<n. rows ! Suc k ! j = B (bit k (n - 1 - j)))"
      using order by blast
    show "supported e \<and> n = length (operands u e h) \<longrightarrow>
           (\<exists>rs. truth_table u e h = Inr rs \<and> length rs = 2 ^ n + 1 \<and>
                 (\<forall>k<2 ^ n. \<forall>j<n. rs ! Suc k ! j = B (bit k (n - 1 - j))))"
    proof (rule impI)
      assume a: "supported e \<and> n = length (operands u e h)"
      then obtain rs where rs: "truth_table u e h = Inr rs"
        using truth_table_supported_returns[of e u h] by blast
      then show "\<exists>rs. truth_table u e h = Inr rs \<and> length rs = 2 ^ n + 1 \<and>
                 (\<forall>k<2 ^ n. \<forall>j<n. rs ! Suc k ! j = B (bit k (n - 1 - j)))"
        using order[OF rs] a by blast
    qed
  qed
qed

text \<open>
  An instance: \<^verbatim>\<open>truth_table\<close> returns for \<^verbatim>\<open>a and b\<close>, with five rows, and the
  assignments of the operands \<^verbatim>\<open>(a, b)\<close> in the data rows are (F,F), (F,T), (T,F),
  (T,T).
\<close>

theorem truth_table_binary_counting_order_witness:
  "\<exists>rows. truth_table unparse_sample
             (BoolOp 0 ''And'' [Other 1 KName [FScalar ''a''], Other 2 KName [FScalar ''b'']]) 0
           = Inr rows
     \<and> length rows = 5
     \<and> rows ! 1 ! 0 = B False \<and> rows ! 1 ! 1 = B False
     \<and> rows ! 2 ! 0 = B False \<and> rows ! 2 ! 1 = B True
     \<and> rows ! 3 ! 0 = B True \<and> rows ! 3 ! 1 = B False
     \<and> rows ! 4 ! 0 = B True \<and> rows ! 4 ! 1 = B True"
proof -
  let ?e = "BoolOp 0 ''And'' [Other 1 KName [FScalar ''a''], Other 2 KName [FScalar ''b'']]"
  have s: "supported ?e" by simp
  have n: "(2::nat) = length (operands unparse_sample ?e 0)" by (simp add: operands_atoms)
  from truth_table_binary_counting_order[of 2 unparse_sample ?e 0] s n
  obtain rows where t: "truth_table unparse_sample ?e 0 = Inr rows"
    and l: "length rows = 2 ^ 2 + 1"
    and o: "\<forall>k<2 ^ 2. \<forall>j<2. rows ! Suc k ! j = B (bit k (2 - 1 - j))"
    by blast
  have e: "rows ! Suc k ! j = B (bit k (1 - j))" if "k < 4" "j < 2" for k j :: nat
    using o that by simp
  have "rows ! 1 ! 0 = B False" "rows ! 1 ! 1 = B False"
    using e[of 0 0] e[of 0 1] by (simp_all add: bit_iff_odd)
  moreover have "rows ! Suc 1 ! 0 = B False" "rows ! Suc 1 ! 1 = B True"
    using e[of 1 0] e[of 1 1] by (simp_all add: bit_iff_odd)
  then have "rows ! 2 ! 0 = B False" "rows ! 2 ! 1 = B True"
    by (simp_all only: Suc_1)
  moreover have "rows ! 3 ! 0 = B True" "rows ! 3 ! 1 = B False"
    using e[of 2 0] e[of 2 1] by (simp_all add: bit_iff_odd)
  moreover have "rows ! 4 ! 0 = B True" "rows ! 4 ! 1 = B True"
    using e[of 3 0] e[of 3 1] by (simp_all add: bit_iff_odd)
  ultimately show ?thesis using t l by simp
qed

text \<open>
  Claim C5, as amended. For \<^verbatim>\<open>a and b\<close>, two atomic nodes with different identities
  under an \<^verbatim>\<open>And\<close>, the operands are the two nodes in order, each under its label
  with its own node, and \<^verbatim>\<open>truth_table\<close> returns the header, that is the labels of
  the two operands and the label of the whole expression, each as unparse renders
  it, and then the four data rows of the conjunction.
\<close>

theorem truth_table_a_and_b:
  assumes "ia \<noteq> ib"
  shows "operands u (BoolOp i ''And'' [Other ia ka fa, Other ib kb fb]) h
           = [(label u (Other ia ka fa), {ia}), (label u (Other ib kb fb), {ib})]
     \<and> truth_table u (BoolOp i ''And'' [Other ia ka fa, Other ib kb fb]) h
           = Inr [[S (label u (Other ia ka fa)), S (label u (Other ib kb fb)),
                   S (label u (BoolOp i ''And'' [Other ia ka fa, Other ib kb fb]))],
                  [B False, B False, B False],
                  [B False, B True, B False],
                  [B True, B False, B False],
                  [B True, B True, B True]]"
proof -
  have p: "itertools_product [False, True] (Suc (Suc 0))
       = [[False, False], [False, True], [True, False], [True, True]]"
    by (simp add: itertools_product_def product_step_def)
  show ?thesis
    using assms
    by (simp add: operands_atoms truth_table_def collect_names_new_names new_Name_def p
          Name_eq_node_def subscript_def)
qed

text \<open>
  An instance, with the labels as the library renders them: the header is
  \<^verbatim>\<open>('a', 'b', '(a and b)')\<close>.
\<close>

theorem truth_table_a_and_b_witness:
  "operands unparse_sample
      (BoolOp 0 ''And'' [Other 1 KName [FScalar ''a''], Other 2 KName [FScalar ''b'']]) 0
           = [(''a'', {1}), (''b'', {2})]
     \<and> truth_table unparse_sample
      (BoolOp 0 ''And'' [Other 1 KName [FScalar ''a''], Other 2 KName [FScalar ''b'']]) 0
           = Inr [[S ''a'', S ''b'', S ''(a and b)''],
                  [B False, B False, B False],
                  [B False, B True, B False],
                  [B True, B False, B False],
                  [B True, B True, B True]]"
proof -
  have l: "label unparse_sample (Other 1 KName [FScalar ''a'']) = ''a''"
    "label unparse_sample (Other 2 KName [FScalar ''b'']) = ''b''"
    "label unparse_sample
      (BoolOp 0 ''And'' [Other 1 KName [FScalar ''a''], Other 2 KName [FScalar ''b'']])
       = ''(a and b)''"
    by (simp_all add: label_def unparse_sample_def strip_def is_space_def)
  have d: "(1::nat) \<noteq> 2" by simp
  show ?thesis
    using truth_table_a_and_b[OF d, where u = unparse_sample and ka = KName
            and fa = "[FScalar ''a'']" and kb = KName and fb = "[FScalar ''b'']"
            and i = 0 and h = 0]
    unfolding l .
qed

text \<open>
  The claim as first stated gives the last cell of the header as \<^verbatim>\<open>a and b\<close>. The
  library puts every \<^verbatim>\<open>BoolOp\<close> in parentheses, so the label of the expression is
  \<^verbatim>\<open>(a and b)\<close> and the rows returned are not the rows of the claim.
\<close>

theorem truth_table_a_and_b_counterexample:
  "label unparse_sample
     (BoolOp 0 ''And'' [Other 1 KName [FScalar ''a''], Other 2 KName [FScalar ''b'']])
     = ''(a and b)''
   \<and> truth_table unparse_sample
     (BoolOp 0 ''And'' [Other 1 KName [FScalar ''a''], Other 2 KName [FScalar ''b'']]) 0
     \<noteq> Inr [[S ''a'', S ''b'', S ''a and b''],
            [B False, B False, B False],
            [B False, B True, B False],
            [B True, B False, B False],
            [B True, B True, B True]]"
  by code_simp

section \<open>Operands under a unary operator\<close>

text \<open>
  Claim C10. The expression \<^verbatim>\<open>a and -b\<close> passes the filter and is collected. The
  extractor goes through the unary minus and registers \<^verbatim>\<open>a\<close> and \<^verbatim>\<open>b\<close>, so no operand
  matches the \<^verbatim>\<open>UnaryOp\<close> node itself; the evaluator then goes into that node and
  rejects its operator: \<^verbatim>\<open>truth_table\<close> raises \<^verbatim>\<open>NotImplementedError\<close>. This holds for
  every unparse function.
\<close>

theorem truth_table_unary_minus_raises:
  "probably_truthy
     (BoolOp 0 ''And'' [Other 1 KName [FScalar ''a''],
        UnaryOp 2 ''USub'' (Other 3 KName [FScalar ''b''])])
   \<and> collect_bool_ops
     (BoolOp 0 ''And'' [Other 1 KName [FScalar ''a''],
        UnaryOp 2 ''USub'' (Other 3 KName [FScalar ''b''])])
     = [BoolOp 0 ''And'' [Other 1 KName [FScalar ''a''],
        UnaryOp 2 ''USub'' (Other 3 KName [FScalar ''b''])]]
   \<and> operands u
     (BoolOp 0 ''And'' [Other 1 KName [FScalar ''a''],
        UnaryOp 2 ''USub'' (Other 3 KName [FScalar ''b''])]) h
     = [(label u (Other 1 KName [FScalar ''a'']), {1}),
        (label u (Other 3 KName [FScalar ''b'']), {3})]
   \<and> index_of (fst (collect_names u
     (BoolOp 0 ''And'' [Other 1 KName [FScalar ''a''],
        UnaryOp 2 ''USub'' (Other 3 KName [FScalar ''b''])]) h))
       (UnaryOp 2 ''USub'' (Other 3 KName [FScalar ''b''])) = None
   \<and> truth_table u
     (BoolOp 0 ''And'' [Other 1 KName [FScalar ''a''],
        UnaryOp 2 ''USub'' (Other 3 KName [FScalar ''b''])]) h
     = Inl (NotImplementedError ''USub'')"
proof -
  have p: "itertools_product [False, True] (Suc (Suc 0))
       = [[False, False], [False, True], [True, False], [True, True]]"
    by (simp add: itertools_product_def product_step_def)
  show ?thesis
    by (simp add: operands_atoms truth_table_def collect_names_new_names new_Name_def p
          Name_eq_node_def subscript_def)
qed




section \<open>An operand that occurs twice\<close>

text \<open>
  Claim C1 states that operands with equal labels are one operand, the node of
  the later occurrence joining the node set of the first. On \<^verbatim>\<open>a and b and a\<close> the
  extractor returns three operands, \<^verbatim>\<open>a\<close>, \<^verbatim>\<open>b\<close> and \<^verbatim>\<open>a\<close> again, each with the one
  node it was made from: \<^verbatim>\<open>OrderedSet.add\<close> finds a key through its hash, which
  is that of the object, so \<^verbatim>\<open>Name.__eq__\<close> is not asked, and \<^verbatim>\<open>Name.__or__\<close> is never
  called. The table then has two columns \<^verbatim>\<open>a\<close> that vary independently, and eight
  data rows.
\<close>

theorem collect_names_repeated_operand:
  "collect_names unparse_sample
     (BoolOp 0 ''And'' [Other 1 KName [FScalar ''a''], Other 2 KName [FScalar ''b''],
        Other 3 KName [FScalar ''a'']]) 0
   = ([\<lparr>oid = 0, name = ''a'', nodes = {1}\<rparr>, \<lparr>oid = 1, name = ''b'', nodes = {2}\<rparr>,
       \<lparr>oid = 2, name = ''a'', nodes = {3}\<rparr>], 3)
   \<and> truth_table unparse_sample
     (BoolOp 0 ''And'' [Other 1 KName [FScalar ''a''], Other 2 KName [FScalar ''b''],
        Other 3 KName [FScalar ''a'']]) 0
   = Inr [[S ''a'', S ''b'', S ''a'', S ''(a and b and a)''],
          [B False, B False, B False, B False],
          [B False, B False, B True, B False],
          [B False, B True, B False, B False],
          [B False, B True, B True, B False],
          [B True, B False, B False, B False],
          [B True, B False, B True, B False],
          [B True, B True, B False, B False],
          [B True, B True, B True, B True]]"
  by code_simp

section \<open>The table renderer\<close>

lemma column_sizes_row_nth:
  "i + length row \<le> length sizes \<Longrightarrow>
     \<exists>sizes'. column_sizes_row sizes i row = Inr sizes' \<and> length sizes' = length sizes \<and>
       (\<forall>j<length sizes. sizes' ! j =
          (if i \<le> j \<and> j < i + length row
           then max (sizes ! j) (length (str (row ! (j - i)))) else sizes ! j))"
proof (induction row arbitrary: sizes i)
  case Nil
  then show ?case by simp
next
  case (Cons c row)
  let ?s = "if sizes ! i < length (str c) then sizes[i := length (str c)] else sizes"
  have i: "i < length sizes" using Cons.prems by simp
  have ls: "length ?s = length sizes" by simp
  have "Suc i + length row \<le> length ?s" using Cons.prems by simp
  from Cons.IH[OF this] obtain sizes' where
    r: "column_sizes_row ?s (Suc i) row = Inr sizes'" and l: "length sizes' = length sizes"
    and n: "\<forall>j<length sizes. sizes' ! j =
          (if Suc i \<le> j \<and> j < Suc i + length row
           then max (?s ! j) (length (str (row ! (j - Suc i)))) else ?s ! j)"
    unfolding ls by blast
  have "sizes' ! j = (if i \<le> j \<and> j < i + length (c # row)
           then max (sizes ! j) (length (str ((c # row) ! (j - i)))) else sizes ! j)"
    if "j < length sizes" for j
  proof (cases "j = i")
    case True
    then show ?thesis using n that i by (simp add: max_def)
  next
    case False
    then have "?s ! j = sizes ! j" by simp
    moreover have "(c # row) ! (j - i) = row ! (j - Suc i)" if "Suc i \<le> j"
      using that by (simp add: Suc_diff_le)
    ultimately show ?thesis using n that False by (auto simp: Suc_le_eq)
  qed
  then show ?case using r l i by simp
qed

lemma column_sizes_rows_nth:
  "\<forall>row\<in>set lol. length row = length sizes \<Longrightarrow>
     \<exists>sizes'. column_sizes_rows sizes lol = Inr sizes' \<and> length sizes' = length sizes \<and>
       (\<forall>j<length sizes. sizes' ! j =
          Max (insert (sizes ! j) ((\<lambda>row. length (str (row ! j))) ` set lol)))"
proof (induction lol arbitrary: sizes)
  case Nil
  then show ?case by simp
next
  case (Cons row lol)
  have "0 + length row \<le> length sizes" using Cons.prems by simp
  from column_sizes_row_nth[OF this] obtain s1 where
    r1: "column_sizes_row sizes 0 row = Inr s1" and l1: "length s1 = length sizes"
    and n1: "\<forall>j<length sizes. s1 ! j = max (sizes ! j) (length (str (row ! j)))"
    using Cons.prems by auto
  have "\<forall>row\<in>set lol. length row = length s1" using Cons.prems l1 by simp
  from Cons.IH[OF this] obtain s2 where
    r2: "column_sizes_rows s1 lol = Inr s2" and l2: "length s2 = length sizes"
    and n2: "\<forall>j<length sizes. s2 ! j =
          Max (insert (s1 ! j) ((\<lambda>row. length (str (row ! j))) ` set lol))"
    unfolding l1 by blast
  have "s2 ! j = Max (insert (sizes ! j) ((\<lambda>row. length (str (row ! j))) ` set (row # lol)))"
    if "j < length sizes" for j
  proof -
    let ?S = "(\<lambda>row. length (str (row ! j))) ` set lol"
    have "s2 ! j = Max (insert (max (sizes ! j) (length (str (row ! j)))) ?S)"
      using n1 n2 that by simp
    also have "\<dots> = Max (insert (sizes ! j) (insert (length (str (row ! j))) ?S))"
      by (cases "?S = {}") (simp_all add: max.assoc)
    finally show ?thesis by simp
  qed
  then show ?case using r1 r2 l2 by simp
qed

lemma format_row_eq:
  "length values = length sizes \<Longrightarrow>
     format_row values sizes =
       Inr (concat (map (\<lambda>j. center (values ! j) (sizes ! j)) [0..<length sizes]))"
proof -
  assume l: "length values = length sizes"
  have "map (\<lambda>(value, width). center value width) (zip values sizes)
          = map (\<lambda>j. center (values ! j) (sizes ! j)) [0..<length sizes]"
    using l by (intro nth_equalityI) simp_all
  then show ?thesis using l by (simp add: format_row_def)
qed


lemma result_lines_eq:
  assumes "\<forall>row\<in>set lol. length row = length sizes"
  shows "result_lines sep sizes i lol =
     Inr (case lol of [] \<Rightarrow> []
          | row # rest \<Rightarrow>
              (if i = 0
               then [concat (map (\<lambda>j. center (str (row ! j)) (sizes ! j)) [0..<length sizes]),
                     concat (map (\<lambda>j. center (replicate (sizes ! j - sep) (CHR ''-''))
                                    (sizes ! j)) [0..<length sizes])]
               else [concat (map (\<lambda>j. center (str (row ! j)) (sizes ! j)) [0..<length sizes])])
              @ map (\<lambda>row. concat (map (\<lambda>j. center (str (row ! j)) (sizes ! j))
                                  [0..<length sizes])) rest)"
  using assms
proof (induction lol arbitrary: i)
  case Nil
  then show ?case by simp
next
  case (Cons row lol)
  have f: "format_row (map str row) sizes =
       Inr (concat (map (\<lambda>j. center (str (row ! j)) (sizes ! j)) [0..<length sizes]))"
  proof -
    have "concat (map (\<lambda>j. center (map str row ! j) (sizes ! j)) [0..<length sizes])
            = concat (map (\<lambda>j. center (str (row ! j)) (sizes ! j)) [0..<length sizes])"
      using Cons.prems by (intro arg_cong[where f = concat] map_cong) simp_all
    then show ?thesis
      using format_row_eq[of "map str row" sizes] Cons.prems by simp
  qed
  have d: "format_row (map (\<lambda>s. replicate (s - sep) (CHR ''-'')) sizes) sizes =
       Inr (concat (map (\<lambda>j. center (replicate (sizes ! j - sep) (CHR ''-'')) (sizes ! j))
              [0..<length sizes]))"
  proof -
    have "concat (map (\<lambda>j. center (map (\<lambda>s. replicate (s - sep) (CHR ''-'')) sizes ! j)
                              (sizes ! j)) [0..<length sizes])
            = concat (map (\<lambda>j. center (replicate (sizes ! j - sep) (CHR ''-'')) (sizes ! j))
                        [0..<length sizes])"
      by (intro arg_cong[where f = concat] map_cong) simp_all
    then show ?thesis
      using format_row_eq[of "map (\<lambda>s. replicate (s - sep) (CHR ''-'')) sizes" sizes] by simp
  qed
  have r: "result_lines sep sizes (Suc i') lol =
       Inr (map (\<lambda>row. concat (map (\<lambda>j. center (str (row ! j)) (sizes ! j))
                                  [0..<length sizes])) lol)" for i'
    using Cons.IH[of "Suc i'"] Cons.prems by (simp split: list.splits)
  show ?case by (simp add: f d r)
qed

text \<open>
  Claim C9. For rows that are not empty as a collection and all of one length
  \<open>m\<close>, \<^verbatim>\<open>simple_table\<close> returns the lines joined by line feeds: the line of the
  first row, then the line of dashes, then the lines of the other rows. The field
  width of a column is the greatest printed width in the column plus the padding
  \<open>sep\<close> (4 when the caller gives none); a line is its cells with nothing between them,
  each centred in its field width, that is filled up to exactly that width with
  half of the missing spaces (rounded down) before it and the rest after it; the dashes
  of a column are as many as the field width less the padding, centred in the
  field width as well.
\<close>

theorem simple_table_layout:
  assumes "lol \<noteq> []"
    and "\<forall>row\<in>set lol. length row = m"
  shows "simple_table lol sep =
           Inr (join [CHR 0x0A]
                  (table_line lol sep (hd lol) # dashes_line lol sep m
                     # map (table_line lol sep) (tl lol)))
         \<and> (\<forall>j<m. field_width lol sep j - sep = printed_width lol j
               \<and> length (center (replicate (field_width lol sep j - sep) (CHR ''-''))
                           (field_width lol sep j)) = field_width lol sep j)
         \<and> (\<forall>row\<in>set lol. \<forall>j<m.
               center (str (row ! j)) (field_width lol sep j)
                 = replicate ((field_width lol sep j - length (str (row ! j))) div 2) (CHR '' '')
                   @ str (row ! j)
                   @ replicate ((field_width lol sep j - length (str (row ! j)))
                                - (field_width lol sep j - length (str (row ! j))) div 2) (CHR '' '')
               \<and> length (center (str (row ! j)) (field_width lol sep j)) = field_width lol sep j)"
proof (intro conjI)
  obtain row0 rest where lol: "lol = row0 # rest" using assms(1) by (cases lol) auto
  have m: "length row0 = m" using assms(2) lol by simp
  have "\<forall>row\<in>set lol. length row = length (replicate m (0::nat))" using assms(2) by simp
  from column_sizes_rows_nth[OF this] obtain sizes where
    cs: "column_sizes_rows (replicate m 0) lol = Inr sizes" and ls: "length sizes = m"
    and ns: "\<forall>j<m. sizes ! j = Max (insert 0 ((\<lambda>row. length (str (row ! j))) ` set lol))"
    by auto
  have w: "sizes ! j = printed_width lol j" if "j < m" for j
  proof -
    let ?S = "(\<lambda>row. length (str (row ! j))) ` set lol"
    have "?S \<noteq> {}" "finite ?S" using assms(1) by simp_all
    then have "Max (insert 0 ?S) = Max ?S" by (simp add: max_def)
    then show ?thesis using ns that by (simp add: printed_width_def)
  qed
  let ?cs = "map (\<lambda>s. s + sep) sizes"
  have fw: "?cs ! j = field_width lol sep j" if "j < m" for j
    using w[OF that] that ls by (simp add: field_width_def)
  have rl: "\<forall>row\<in>set lol. length row = length ?cs" using assms(2) ls by simp
  have line: "concat (map (\<lambda>j. center (str (row ! j)) (?cs ! j)) [0..<length ?cs])
                = table_line lol sep row" if "row \<in> set lol" for row
  proof -
    have "length row = m" using assms(2) that by simp
    then show ?thesis
      unfolding table_line_def using fw ls by (intro arg_cong[where f = concat] map_cong) simp_all
  qed
  have dash: "concat (map (\<lambda>j. center (replicate (?cs ! j - sep) (CHR ''-'')) (?cs ! j))
                  [0..<length ?cs]) = dashes_line lol sep m"
    unfolding dashes_line_def using fw ls by (intro arg_cong[where f = concat] map_cong) simp_all
  have "map (\<lambda>row. concat (map (\<lambda>j. center (str (row ! j)) (?cs ! j)) [0..<length ?cs])) rest
          = map (table_line lol sep) rest"
    using line lol by (intro map_cong) simp_all
  then have "result_lines sep ?cs 0 lol =
          Inr (table_line lol sep row0 # dashes_line lol sep m # map (table_line lol sep) rest)"
    using result_lines_eq[OF rl, of sep 0] line[of row0] dash lol by simp
  then show "simple_table lol sep =
           Inr (join [CHR 0x0A]
                  (table_line lol sep (hd lol) # dashes_line lol sep m
                     # map (table_line lol sep) (tl lol)))"
    using cs lol m by (simp add: simple_table_def)
next
  show "\<forall>j<m. field_width lol sep j - sep = printed_width lol j
               \<and> length (center (replicate (field_width lol sep j - sep) (CHR ''-''))
                           (field_width lol sep j)) = field_width lol sep j"
    by (auto simp: field_width_def center_def Let_def)
next
  show "\<forall>row\<in>set lol. \<forall>j<m.
               center (str (row ! j)) (field_width lol sep j)
                 = replicate ((field_width lol sep j - length (str (row ! j))) div 2) (CHR '' '')
                   @ str (row ! j)
                   @ replicate ((field_width lol sep j - length (str (row ! j)))
                                - (field_width lol sep j - length (str (row ! j))) div 2) (CHR '' '')
               \<and> length (center (str (row ! j)) (field_width lol sep j)) = field_width lol sep j"
  proof (intro ballI allI impI)
    fix row j assume row: "row \<in> set lol" and "j < m"
    have "length (str (row ! j)) \<le> printed_width lol j"
      unfolding printed_width_def using row by (intro Max_ge) auto
    then have "length (str (row ! j)) \<le> field_width lol sep j"
      by (simp add: field_width_def)
    then show "center (str (row ! j)) (field_width lol sep j)
                 = replicate ((field_width lol sep j - length (str (row ! j))) div 2) (CHR '' '')
                   @ str (row ! j)
                   @ replicate ((field_width lol sep j - length (str (row ! j)))
                                - (field_width lol sep j - length (str (row ! j))) div 2) (CHR '' '')
               \<and> length (center (str (row ! j)) (field_width lol sep j)) = field_width lol sep j"
      by (auto simp: center_def Let_def)
  qed
qed

text \<open>
  An instance: the header \<^verbatim>\<open>("a", "b", "e")\<close> and the data row
  \<^verbatim>\<open>(False, True, True)\<close> with padding 4.
\<close>

theorem simple_table_layout_witness:
  "simple_table [[S ''a'', S ''b'', S ''e''], [B False, B True, B True]] 4
     = Inr (''    a       b       e    '' @ [CHR 0x0A] @
            ''  -----    ----    ----  '' @ [CHR 0x0A] @
            ''  False    True    True  '')
   \<and> field_width [[S ''a'', S ''b'', S ''e''], [B False, B True, B True]] 4 0 = 9
   \<and> field_width [[S ''a'', S ''b'', S ''e''], [B False, B True, B True]] 4 1 = 8
   \<and> center (str (B True)) 9 = ''  True   ''"
proof -
  let ?lol = "[[S ''a'', S ''b'', S ''e''], [B False, B True, B True]]"
  have ne: "?lol \<noteq> []" by simp
  have rect: "\<forall>row\<in>set ?lol. length row = 3" by simp
  have t0: "table_line ?lol 4 [S ''a'', S ''b'', S ''e''] = ''    a       b       e    ''"
    by code_simp
  have t1: "table_line ?lol 4 [B False, B True, B True] = ''  False    True    True  ''"
    by code_simp
  have d: "dashes_line ?lol 4 3 = ''  -----    ----    ----  ''"
    by code_simp
  have fw: "field_width ?lol 4 0 = 9" "field_width ?lol 4 1 = 8"
    by code_simp+
  have c: "center (str (B True)) 9 = ''  True   ''"
    by code_simp
  have "simple_table ?lol 4 =
          Inr (join [CHR 0x0A]
                 (table_line ?lol 4 (hd ?lol) # dashes_line ?lol 4 3
                    # map (table_line ?lol 4) (tl ?lol)))"
    using simple_table_layout[OF ne rect, of 4] by (rule conjunct1)
  then show ?thesis
    using fw c by (simp add: t0 t1 d)
qed

end
